theory Spec2Isabelle
  imports Main "HOL-Library.Sublist" "HOL-Library.Multiset" "HOL-Library.Code_Target_Nat"
begin

section \<open>Strings and the two forms of String.prototype.replace\<close>

text \<open>
  A JavaScript string is modelled as a \<^typ>\<open>string\<close>, one \<^typ>\<open>char\<close> per code
  unit. Only code units below 256 are representable, so of the four line terminators
  that the regular expression atom \<^verbatim>\<open>.\<close> refuses (LF, CR, U+2028, U+2029) the model
  has the first two.
\<close>

definition is_line_terminator :: "char \<Rightarrow> bool" where
  "is_line_terminator c = (c = CHR 0x0A \<or> c = CHR 0x0D)"

text \<open>
  \<open>lazy_until close s\<close> is the match of \<^verbatim>\<open>(.*?)close\<close> anchored at the head of \<open>s\<close>:
  the group grows one code unit at a time and stops at the first place where \<open>close\<close>
  follows; it cannot grow over a line terminator or over the end of the string. The
  result is the captured group.
\<close>

fun lazy_until :: "string \<Rightarrow> string \<Rightarrow> string option" where
  "lazy_until close [] = (if close = [] then Some [] else None)"
| "lazy_until close (c # cs) =
     (if prefix close (c # cs) then Some []
      else if is_line_terminator c then None
      else (case lazy_until close cs of
              None \<Rightarrow> None
            | Some content \<Rightarrow> Some (c # content)))"

text \<open>
  The hyperlink pattern \<^verbatim>\<open>(.*?)">(.*?)<\/a>\<close> behind its opening literal has two lazy
  groups: the first one is extended (backtracking) as long as the remainder of the
  pattern does not match behind it. The result is the pair of captured groups.
\<close>

fun lazy_href :: "string \<Rightarrow> (string \<times> string) option" where
  "lazy_href [] = None"
| "lazy_href (c # cs) =
     (case (if prefix ''\">'' (c # cs) then lazy_until ''</a>'' (drop 2 (c # cs)) else None) of
        Some content \<Rightarrow> Some ([], content)
      | None \<Rightarrow>
          if is_line_terminator c then None
          else (case lazy_href cs of
                  None \<Rightarrow> None
                | Some (href, content) \<Rightarrow> Some (c # href, content)))"

text \<open>
  \<open>split_first pat s\<close> finds the first occurrence of the string \<open>pat\<close> in \<open>s\<close> and
  returns the text in front of it and the text behind it.
\<close>

fun split_first :: "string \<Rightarrow> string \<Rightarrow> (string \<times> string) option" where
  "split_first pat [] = (if pat = [] then Some ([], []) else None)"
| "split_first pat (c # cs) =
     (if prefix pat (c # cs) then Some ([], drop (length pat) (c # cs))
      else (case split_first pat cs of
              None \<Rightarrow> None
            | Some (front, behind) \<Rightarrow> Some (c # front, behind)))"

text \<open>
  The replacement text of \<^verbatim>\<open>str.replace(pattern, replacement)\<close> with a string pattern
  is a template (GetSubstitution): \<^verbatim>\<open>$$\<close> stands for a dollar sign, \<^verbatim>\<open>$&\<close> for the
  matched text, \<^verbatim>\<open>$`\<close> for the text in front of the match and \<^verbatim>\<open>$'\<close> for the text
  behind it. A string pattern has no capture groups, so \<^verbatim>\<open>$1\<close> and \<^verbatim>\<open>$<\<close> stay as they are.
\<close>

fun get_substitution :: "string \<Rightarrow> string \<Rightarrow> string \<Rightarrow> string \<Rightarrow> string" where
  "get_substitution matched front behind [] = []"
| "get_substitution matched front behind [c] = [c]"
| "get_substitution matched front behind (c # d # r) =
     (if c = CHR ''$'' \<and> d = CHR ''$'' then CHR ''$'' # get_substitution matched front behind r
      else if c = CHR ''$'' \<and> d = CHR ''&'' then matched @ get_substitution matched front behind r
      else if c = CHR ''$'' \<and> d = CHR 0x60 then front @ get_substitution matched front behind r
      else if c = CHR ''$'' \<and> d = CHR 0x27 then behind @ get_substitution matched front behind r
      else c # get_substitution matched front behind (d # r))"

definition replace_string :: "string \<Rightarrow> string \<Rightarrow> string \<Rightarrow> string" where
  "replace_string s pat replacement =
     (case split_first pat s of
        None \<Rightarrow> s
      | Some (front, behind) \<Rightarrow> front @ get_substitution pat front behind replacement @ behind)"

section \<open>The state of one run\<close>

text \<open>
  Two things happen outside the program: \<^verbatim>\<open>uuidv4()\<close> draws an identifier and
  \<^verbatim>\<open>fetch\<close> sends a request to the translation endpoint. The identifier source is a
  parameter \<open>uuid\<close>, the \<open>n\<close>-th call returning \<open>uuid n\<close>; the state counts the calls
  and records every request that was sent, in order.
\<close>

record world =
  uuid_calls :: nat
  requests :: "(string \<times> string) list"

subsection \<open>Objects\<close>

text \<open>
  An object is the list of its own properties in the order in which they were created.
  \<^verbatim>\<open>obj[key] = value\<close> on an object made by \<^verbatim>\<open>{}\<close> overwrites the property when the key
  exists and creates it behind the others otherwise; for the key \<^verbatim>\<open>__proto__\<close> it calls
  the setter of \<^verbatim>\<open>Object.prototype\<close>, which creates no property.
\<close>

fun js_assign :: "(string \<times> 'v) list \<Rightarrow> string \<Rightarrow> 'v \<Rightarrow> (string \<times> 'v) list" where
  "js_assign [] key v = (if key = ''__proto__'' then [] else [(key, v)])"
| "js_assign ((k, w) # obj) key v =
     (if key = ''__proto__'' then (k, w) # obj
      else if k = key then (k, v) # obj
      else (k, w) # js_assign obj key v)"

text \<open>
  \<^verbatim>\<open>Object.entries\<close> lists the properties whose key is an array index first, in ascending
  numeric order, and then the others in the order of their creation. An array index is
  the decimal numeral, without leading zeros, of a number below \<open>2\<^sup>3\<^sup>2 - 1\<close>.
\<close>

definition is_digit :: "char \<Rightarrow> bool" where
  "is_digit c = (c \<in> set ''0123456789'')"

definition digit_value :: "char \<Rightarrow> nat" where
  "digit_value c = of_char c - 48"

definition digits_value :: "string \<Rightarrow> nat" where
  "digits_value s = foldl (\<lambda>n c. 10 * n + digit_value c) 0 s"

definition array_index :: "string \<Rightarrow> nat option" where
  "array_index s =
     (if s \<noteq> [] \<and> list_all is_digit s \<and> (s = ''0'' \<or> hd s \<noteq> CHR ''0'')
         \<and> digits_value s < 4294967295
      then Some (digits_value s) else None)"

definition js_entries :: "(string \<times> 'v) list \<Rightarrow> (string \<times> 'v) list" where
  "js_entries obj =
     sort_key (\<lambda>(k, v). the (array_index k)) (filter (\<lambda>(k, v). array_index k \<noteq> None) obj)
     @ filter (\<lambda>(k, v). array_index k = None) obj"

section \<open>The markup codec\<close>

text \<open>
  A matcher is one of the four regular expressions tried at the head of a string: it
  returns the fragment that the callback records for the match and the length of the
  match.
\<close>

type_synonym matcher = "string \<Rightarrow> (string \<times> nat) option"

definition match_bold :: matcher where
  "match_bold s =
     (if prefix ''<b>'' s then
        (case lazy_until ''</b>'' (drop 3 s) of
           None \<Rightarrow> None
         | Some content \<Rightarrow> Some (''<b>'' @ content @ ''</b>'', 3 + length content + 4))
      else None)"

definition match_italic :: matcher where
  "match_italic s =
     (if prefix ''<i>'' s then
        (case lazy_until ''</i>'' (drop 3 s) of
           None \<Rightarrow> None
         | Some content \<Rightarrow> Some (''<i>'' @ content @ ''</i>'', 3 + length content + 4))
      else None)"

definition match_link :: matcher where
  "match_link s =
     (if prefix ''<a href=\"'' s then
        (case lazy_href (drop 9 s) of
           None \<Rightarrow> None
         | Some (href, content) \<Rightarrow>
             Some (''<a href=\"'' @ href @ ''\">'' @ content @ ''</a>'',
                   9 + length href + 2 + length content + 4))
      else None)"

definition match_variable :: matcher where
  "match_variable s =
     (if prefix ''${'' s then
        (case lazy_until ''}'' (drop 2 s) of
           None \<Rightarrow> None
         | Some content \<Rightarrow> Some (''${'' @ content @ ''}'', 2 + length content + 1))
      else None)"

text \<open>
  \<^verbatim>\<open>text.replace(/.../g, callback)\<close>: the string is scanned from the left; at a match
  the callback draws an identifier, stores the fragment under it and returns the
  delimited token, and the scan goes on behind the match; elsewhere the code unit is
  copied.
\<close>

function replace_matches ::
  "matcher \<Rightarrow> (nat \<Rightarrow> string) \<Rightarrow> string \<Rightarrow> (string \<times> string) list \<Rightarrow> world \<Rightarrow>
     string \<times> (string \<times> string) list \<times> world" where
  "replace_matches m uuid [] placeholders w = ([], placeholders, w)"
| "replace_matches m uuid (c # cs) placeholders w =
     (case m (c # cs) of
        None \<Rightarrow>
          (case replace_matches m uuid cs placeholders w of
             (t, placeholders', w') \<Rightarrow> (c # t, placeholders', w'))
      | Some (fragment, n) \<Rightarrow>
          (let uid = uuid (uuid_calls w) in
           case replace_matches m uuid (drop (n - 1) cs)
                  (js_assign placeholders uid fragment) (w\<lparr>uuid_calls := Suc (uuid_calls w)\<rparr>) of
             (t, placeholders', w') \<Rightarrow> (''{{'' @ uid @ ''}}'' @ t, placeholders', w')))"
  by pat_completeness auto
termination
  by (relation "measure (\<lambda>(m, uuid, s, placeholders, w). length s)") auto

definition preprocessText ::
  "(nat \<Rightarrow> string) \<Rightarrow> string \<Rightarrow> world \<Rightarrow> (string \<times> (string \<times> string) list) \<times> world" where
  "preprocessText uuid text w =
     (case replace_matches match_bold uuid text [] w of (t1, p1, w1) \<Rightarrow>
      case replace_matches match_italic uuid t1 p1 w1 of (t2, p2, w2) \<Rightarrow>
      case replace_matches match_link uuid t2 p2 w2 of (t3, p3, w3) \<Rightarrow>
      case replace_matches match_variable uuid t3 p3 w3 of (t4, p4, w4) \<Rightarrow>
        ((t4, p4), w4))"

text \<open>The loop of \<open>postprocessText\<close> over \<^verbatim>\<open>Object.entries(placeholders)\<close>.\<close>

fun replace_each :: "string \<Rightarrow> (string \<times> string) list \<Rightarrow> string" where
  "replace_each text [] = text"
| "replace_each text ((uid, content) # entries) =
     replace_each (replace_string text (''{{'' @ uid @ ''}}'') content) entries"

definition postprocessText :: "string \<Rightarrow> (string \<times> string) list \<Rightarrow> string" where
  "postprocessText text placeholders = replace_each text (js_entries placeholders)"

section \<open>Documents\<close>

text \<open>
  A document is what \<^verbatim>\<open>JSON.parse\<close> returns. The program only copies numbers, so
  their representation plays no role.
\<close>

datatype json =
    JNull
  | JBool bool
  | JNum int
  | is_JStr: JStr (str: string)
  | JArr "json list"
  | JObj "(string \<times> json) list"

datatype js_error = Error string | TypeError string | SyntaxError string

fun message :: "js_error \<Rightarrow> string" where
  "message (Error m) = m"
| "message (TypeError m) = m"
| "message (SyntaxError m) = m"

definition digit_char :: "nat \<Rightarrow> char" where
  "digit_char d = ''0123456789'' ! d"

fun show_nat :: "nat \<Rightarrow> string" where
  "show_nat n = (if n < 10 then [digit_char n] else show_nat (n div 10) @ [digit_char (n mod 10)])"

declare show_nat.simps [simp del]

text \<open>
  \<^verbatim>\<open>Object.entries(data)\<close>: the properties of an object; the indices and elements of an
  array; the indices and code units of a string; nothing for a number or a boolean; a
  TypeError for null.
\<close>

fun object_entries :: "json \<Rightarrow> js_error + (string \<times> json) list" where
  "object_entries JNull = Inl (TypeError ''Cannot convert undefined or null to object'')"
| "object_entries (JBool b) = Inr []"
| "object_entries (JNum n) = Inr []"
| "object_entries (JStr s) = Inr (zip (map show_nat [0..<length s]) (map (\<lambda>c. JStr [c]) s))"
| "object_entries (JArr xs) = Inr (zip (map show_nat [0..<length xs]) xs)"
| "object_entries (JObj es) = Inr (js_entries es)"

text \<open>\<^verbatim>\<open>typeof v === "object" && v !== null\<close>\<close>

fun is_object :: "json \<Rightarrow> bool" where
  "is_object (JArr xs) = True"
| "is_object (JObj es) = True"
| "is_object v = False"

section \<open>The translation client\<close>

text \<open>
  What \<^verbatim>\<open>fetch("/api/translate", ...)\<close> and the reading of its response come to: the
  promise rejects, or the response is not ok and carries a message, or it is ok and
  carries the translated text. The endpoint is a parameter \<open>fetch\<close>, a function of the
  request body.
\<close>

datatype fetch_result =
    Rejected js_error
  | NotOk nat string
  | Ok string

definition translateText ::
  "(string \<Rightarrow> string \<Rightarrow> fetch_result) \<Rightarrow> string \<Rightarrow> string \<Rightarrow> world \<Rightarrow> (js_error + string) \<times> world" where
  "translateText fetch text targetLanguage w =
     (if text = [] \<or> targetLanguage = [] then
        (Inl (Error ''Both text and targetLanguage are required.''), w)
      else
        (case fetch text targetLanguage of
           Rejected e \<Rightarrow> Inl e
         | NotOk status msg \<Rightarrow> Inl (Error (''Translation failed: '' @ msg))
         | Ok translatedText \<Rightarrow> Inr translatedText,
         w\<lparr>requests := requests w @ [(text, targetLanguage)]\<rparr>))"

section \<open>The tree translator\<close>

text \<open>
  \<open>translateNestedJson\<close> is an async function: a call runs until its first \<^verbatim>\<open>await\<close>
  and is resumed later, when the promise it waits for has settled. Between the two,
  other calls run. A \<open>task\<close> is a call that has returned or is suspended; a suspended
  call holds the variables of its loop (the key and the value of the current entry, the
  entries still to come, and \<^verbatim>\<open>translatedData\<close>) and what it waits for:
  \<^item> \<open>AwaitText\<close>: the promise of \<open>translateText\<close>, with the placeholders of the
    encoded text and what the promise settles to;
  \<^item> \<open>AwaitAll\<close>: the \<^verbatim>\<open>Promise.all\<close> of the callbacks of \<^verbatim>\<open>value.map\<close>, each callback
    being the call it awaits, or fulfilled with its item;
  \<^item> \<open>AwaitCall\<close>: the call of \<open>translateNestedJson\<close> on an object value.
\<close>

type_synonym frame = "string \<times> json \<times> (string \<times> json) list \<times> (string \<times> json) list"

datatype task =
    Finished "js_error + json"
  | AwaitText frame "(string \<times> string) list" "js_error + string"
  | AwaitAll frame "task list"
  | AwaitCall frame task

text \<open>
  The termination measure of the three functions below: a call on an array or an
  object descends into a document with fewer arrays and objects; a call on a string, a
  number or a boolean only copies.
\<close>

fun containers :: "json \<Rightarrow> nat" where
  "containers (JArr xs) = Suc (sum_list (map containers xs))"
| "containers (JObj es) = Suc (sum_list (map (\<lambda>e. containers (snd e)) es))"
| "containers v = 0"

definition call_weight ::
  "'a \<times> 'b \<times> 'c \<times> json \<times> 'd + 'e \<times> 'f \<times> 'g \<times> ('h \<times> json) list \<times> 'i \<times> 'j +
     'k \<times> 'l \<times> 'm \<times> json list \<times> 'n \<Rightarrow> nat" where
  "call_weight x = (case x of
      Inl (f, u, l, d, w) \<Rightarrow> (if is_object d then 2 * containers d else 1)
    | Inr (Inl (f, u, l, es, td, w)) \<Rightarrow> 2 * sum_list (map (\<lambda>e. containers (snd e)) es) + 1
    | Inr (Inr (f, u, l, xs, w)) \<Rightarrow> 2 * sum_list (map containers xs) + 1)"

definition call_length ::
  "'a \<times> 'b \<times> 'c \<times> json \<times> 'd + 'e \<times> 'f \<times> 'g \<times> 'h list \<times> 'i \<times> 'j +
     'k \<times> 'l \<times> 'm \<times> 'n list \<times> 'o \<Rightarrow> nat" where
  "call_length x = (case x of
      Inl (f, u, l, d, w) \<Rightarrow> (case object_entries d of Inl e \<Rightarrow> 0 | Inr es \<Rightarrow> Suc (length es))
    | Inr (Inl (f, u, l, es, td, w)) \<Rightarrow> length es
    | Inr (Inr (f, u, l, xs, w)) \<Rightarrow> length xs)"

lemma map_snd_zip_fun:
  "length ks = length xs \<Longrightarrow> map (\<lambda>e. f (snd e)) (zip ks xs) = map f xs"
  by (induction ks xs rule: list_induct2) simp_all

lemma mset_js_entries: "mset (js_entries obj) = mset obj"
proof -
  have "mset (filter (\<lambda>(k, v). array_index k \<noteq> None) obj)
      + mset (filter (\<lambda>(k, v). array_index k = None) obj) = mset obj"
    by (induction obj) auto
  then show ?thesis
    by (simp add: js_entries_def)
qed

lemma sum_list_js_entries:
  "sum_list (map f (js_entries obj)) = sum_list (map (f :: string \<times> 'a \<Rightarrow> nat) obj)"
proof -
  have "sum_mset (mset (map f (js_entries obj))) = sum_mset (mset (map f obj))"
    by (simp add: mset_js_entries)
  then show ?thesis
    by (simp only: sum_mset_sum_list)
qed

lemma containers_entries:
  "object_entries d = Inr es \<Longrightarrow> is_object d \<Longrightarrow>
   sum_list (map (\<lambda>e. containers (snd e)) es) < containers d"
  by (cases d) (auto simp: map_snd_zip_fun sum_list_js_entries)

lemma containers_scalar_entries:
  "object_entries d = Inr es \<Longrightarrow> \<not> is_object d \<Longrightarrow>
   sum_list (map (\<lambda>e. containers (snd e)) es) = 0"
  by (cases d) (auto simp: map_snd_zip_fun dest!: set_zip_rightD)

text \<open>
  The synchronous part of a call. \<open>translateNestedJson\<close> is the function of that name
  from its entry, \<open>translate_entries\<close> its loop over \<^verbatim>\<open>Object.entries(data)\<close> from a
  given entry on, and \<open>translate_items\<close> is \<^verbatim>\<open>value.map(async (item) => ...)\<close>, which
  starts one callback after the other: each of the three runs to the first \<^verbatim>\<open>await\<close>
  it meets. The loop goes through the entries that need no \<^verbatim>\<open>await\<close>: the key
  \<^verbatim>\<open>"original"\<close>, an empty encoded text, a value that is no array and no object. It is
  suspended where \<open>translateText\<close> has been called (the request is sent by then), where
  the callbacks of an array have been started, and where the call on an object value
  has been started. It returns the object when no entry is left.
\<close>

function translateNestedJson ::
  "(string \<Rightarrow> string \<Rightarrow> fetch_result) \<Rightarrow> (nat \<Rightarrow> string) \<Rightarrow> string \<Rightarrow> json \<Rightarrow> world \<Rightarrow>
     task \<times> world"
and translate_entries ::
  "(string \<Rightarrow> string \<Rightarrow> fetch_result) \<Rightarrow> (nat \<Rightarrow> string) \<Rightarrow> string \<Rightarrow> (string \<times> json) list \<Rightarrow>
     (string \<times> json) list \<Rightarrow> world \<Rightarrow> task \<times> world"
and translate_items ::
  "(string \<Rightarrow> string \<Rightarrow> fetch_result) \<Rightarrow> (nat \<Rightarrow> string) \<Rightarrow> string \<Rightarrow> json list \<Rightarrow> world \<Rightarrow>
     task list \<times> world"
where
  "translateNestedJson fetch uuid targetLanguage data w =
     (case object_entries data of
        Inl e \<Rightarrow> (Finished (Inl e), w)
      | Inr entries \<Rightarrow> translate_entries fetch uuid targetLanguage entries [] w)"
| "translate_entries fetch uuid targetLanguage [] translatedData w =
     (Finished (Inr (JObj translatedData)), w)"
| "translate_entries fetch uuid targetLanguage ((key, v) # entries) translatedData w =
     (if key = ''original'' then
        translate_entries fetch uuid targetLanguage entries (js_assign translatedData key v) w
      else if key = ''translated'' \<and> is_JStr v then
        (case preprocessText uuid (str v) w of
           ((text, placeholders), w1) \<Rightarrow>
             if text \<noteq> [] then
               (case translateText fetch text targetLanguage w1 of
                  (r, w2) \<Rightarrow> (AwaitText (key, v, entries, translatedData) placeholders r, w2))
             else
               translate_entries fetch uuid targetLanguage entries
                 (js_assign translatedData key v) w1)
      else
        (case v of
           JArr items \<Rightarrow>
             (case translate_items fetch uuid targetLanguage items w of
                (tasks, w1) \<Rightarrow> (AwaitAll (key, v, entries, translatedData) tasks, w1))
         | JObj props \<Rightarrow>
             (case translateNestedJson fetch uuid targetLanguage v w of
                (t, w1) \<Rightarrow> (AwaitCall (key, v, entries, translatedData) t, w1))
         | _ \<Rightarrow>
             translate_entries fetch uuid targetLanguage entries
               (js_assign translatedData key v) w))"
| "translate_items fetch uuid targetLanguage [] w = ([], w)"
| "translate_items fetch uuid targetLanguage (item # items) w =
     (if is_object item then
        (case translateNestedJson fetch uuid targetLanguage item w of
           (t, w1) \<Rightarrow>
             (case translate_items fetch uuid targetLanguage items w1 of
                (tasks, w2) \<Rightarrow> (t # tasks, w2)))
      else
        (case translate_items fetch uuid targetLanguage items w of
           (tasks, w1) \<Rightarrow> (Finished (Inr item) # tasks, w1)))"
  by pat_completeness auto
termination
  apply (relation "measures [call_weight, call_length]")
  apply (auto simp: call_weight_def call_length_def containers_scalar_entries
              dest: containers_entries)
  done

declare translateNestedJson.simps [simp del]

text \<open>
  Resuming a suspended call with the value for \<^verbatim>\<open>translatedData[key] = ...\<close>: the
  assignment, and the loop from the next entry to the next \<^verbatim>\<open>await\<close>.
\<close>

fun continue ::
  "(string \<Rightarrow> string \<Rightarrow> fetch_result) \<Rightarrow> (nat \<Rightarrow> string) \<Rightarrow> string \<Rightarrow> frame \<Rightarrow> json \<Rightarrow> world \<Rightarrow>
     task \<times> world" where
  "continue fetch uuid targetLanguage (key, v, entries, translatedData) v' w =
     translate_entries fetch uuid targetLanguage entries (js_assign translatedData key v') w"

text \<open>
  \<^verbatim>\<open>Promise.all\<close> is rejected as soon as one callback is rejected and fulfilled with the
  list of the results when all callbacks are fulfilled; \<open>None\<close> while it is pending.
\<close>

fun promise_all :: "task list \<Rightarrow> (js_error + json list) option" where
  "promise_all [] = Some (Inr [])"
| "promise_all (t # tasks) =
     (case t of
        Finished (Inl e) \<Rightarrow> Some (Inl e)
      | Finished (Inr x) \<Rightarrow>
          (case promise_all tasks of
             None \<Rightarrow> None
           | Some (Inl e) \<Rightarrow> Some (Inl e)
           | Some (Inr xs) \<Rightarrow> Some (Inr (x # xs)))
      | _ \<Rightarrow>
          (case promise_all tasks of
             Some (Inl e) \<Rightarrow> Some (Inl e)
           | _ \<Rightarrow> None))"

text \<open>
  The suspended calls of a task that can be resumed, because what they wait for has
  settled, are counted from the left; calls of sibling callbacks wait side by side.
  Which of them is resumed next is decided by the arrival of the responses and by the
  job queue, not by the program.
\<close>

fun enabled :: "task \<Rightarrow> nat" where
  "enabled (Finished r) = 0"
| "enabled (AwaitText fr placeholders r) = 1"
| "enabled (AwaitAll fr tasks) =
     (if promise_all tasks \<noteq> None then 1 else sum_list (map enabled tasks))"
| "enabled (AwaitCall fr t) = (case t of Finished r \<Rightarrow> 1 | _ \<Rightarrow> enabled t)"

text \<open>
  \<open>resume n t w\<close> resumes the \<open>n\<close>-th of them in the state \<open>w\<close>. A call that waited for
  \<open>translateText\<close> assigns the decoded translation, or the value it had when the promise
  is rejected (the \<^verbatim>\<open>catch\<close> block); a call that waited for \<^verbatim>\<open>Promise.all\<close> assigns the
  array of the results, a call that waited for a call assigns its result, and both
  assign the value they had when what they waited for is rejected. Each then goes on
  with its loop.
\<close>

fun resume ::
  "(string \<Rightarrow> string \<Rightarrow> fetch_result) \<Rightarrow> (nat \<Rightarrow> string) \<Rightarrow> string \<Rightarrow> nat \<Rightarrow> task \<Rightarrow> world \<Rightarrow>
     task \<times> world"
and resume_list ::
  "(string \<Rightarrow> string \<Rightarrow> fetch_result) \<Rightarrow> (nat \<Rightarrow> string) \<Rightarrow> string \<Rightarrow> nat \<Rightarrow> task list \<Rightarrow> world \<Rightarrow>
     task list \<times> world"
where
  "resume fetch uuid targetLanguage n (Finished r) w = (Finished r, w)"
| "resume fetch uuid targetLanguage n (AwaitText fr placeholders r) w =
     (case r of
        Inl e \<Rightarrow> continue fetch uuid targetLanguage fr (fst (snd fr)) w
      | Inr translatedText \<Rightarrow>
          continue fetch uuid targetLanguage fr
            (JStr (postprocessText translatedText placeholders)) w)"
| "resume fetch uuid targetLanguage n (AwaitAll fr tasks) w =
     (case promise_all tasks of
        Some (Inl e) \<Rightarrow> continue fetch uuid targetLanguage fr (fst (snd fr)) w
      | Some (Inr items') \<Rightarrow> continue fetch uuid targetLanguage fr (JArr items') w
      | None \<Rightarrow>
          (case resume_list fetch uuid targetLanguage n tasks w of
             (tasks', w') \<Rightarrow> (AwaitAll fr tasks', w')))"
| "resume fetch uuid targetLanguage n (AwaitCall fr t) w =
     (case t of
        Finished (Inl e) \<Rightarrow> continue fetch uuid targetLanguage fr (fst (snd fr)) w
      | Finished (Inr d) \<Rightarrow> continue fetch uuid targetLanguage fr d w
      | _ \<Rightarrow>
          (case resume fetch uuid targetLanguage n t w of
             (t', w') \<Rightarrow> (AwaitCall fr t', w')))"
| "resume_list fetch uuid targetLanguage n [] w = ([], w)"
| "resume_list fetch uuid targetLanguage n (t # tasks) w =
     (if n < enabled t then
        (case resume fetch uuid targetLanguage n t w of (t', w') \<Rightarrow> (t' # tasks, w'))
      else
        (case resume_list fetch uuid targetLanguage (n - enabled t) tasks w of
           (tasks', w') \<Rightarrow> (t # tasks', w')))"

text \<open>
  A run resumes suspended calls in the order that a schedule gives, each number
  choosing among the calls that can be resumed at that moment.
\<close>

fun run ::
  "(string \<Rightarrow> string \<Rightarrow> fetch_result) \<Rightarrow> (nat \<Rightarrow> string) \<Rightarrow> string \<Rightarrow> nat list \<Rightarrow> task \<Rightarrow> world \<Rightarrow>
     task \<times> world" where
  "run fetch uuid targetLanguage [] t w = (t, w)"
| "run fetch uuid targetLanguage (n # schedule) t w =
     (case resume fetch uuid targetLanguage n t w of
        (t', w') \<Rightarrow> run fetch uuid targetLanguage schedule t' w')"

section \<open>The page's handler and the endpoint\<close>

text \<open>
  \<open>processTranslations\<close>: \<^verbatim>\<open>JSON.parse\<close> is a parameter \<open>parse\<close>. The handler sets the
  page to processing, clears the error, and awaits \<open>translateNestedJson\<close>; the schedule
  is what happens until the page is looked at. The output is kept as the document whose
  serialisation the page shows, \<open>None\<close> standing for the empty output.
\<close>

record page =
  error_shown :: "string option"
  outputJson :: "json option"
  isProcessing :: bool

definition processTranslations ::
  "(string \<Rightarrow> js_error + json) \<Rightarrow> (string \<Rightarrow> string \<Rightarrow> fetch_result) \<Rightarrow> (nat \<Rightarrow> string) \<Rightarrow>
     nat list \<Rightarrow> string \<Rightarrow> string \<Rightarrow> page \<Rightarrow> world \<Rightarrow> page \<times> world" where
  "processTranslations parse fetch uuid schedule inputJson targetLanguage p w =
     (case parse inputJson of
        Inl e \<Rightarrow>
          (\<lparr>error_shown = Some (''Error processing translations: '' @ message e),
            outputJson = None, isProcessing = False\<rparr>, w)
      | Inr data \<Rightarrow>
          (case translateNestedJson fetch uuid targetLanguage data w of
             (t, w1) \<Rightarrow>
               (case run fetch uuid targetLanguage schedule t w1 of
                  (Finished (Inl e), w') \<Rightarrow>
                    (\<lparr>error_shown = Some (''Error processing translations: '' @ message e),
                      outputJson = None, isProcessing = False\<rparr>, w')
                | (Finished (Inr translatedData), w') \<Rightarrow>
                    (\<lparr>error_shown = None, outputJson = Some translatedData,
                      isProcessing = False\<rparr>, w')
                | (t', w') \<Rightarrow>
                    (\<lparr>error_shown = None, outputJson = outputJson p, isProcessing = True\<rparr>, w'))))"





section \<open>The translation client refuses empty arguments\<close>

text \<open>
  C10. \<open>translateText\<close> throws \<^verbatim>\<open>Error("Both text and targetLanguage are required.")\<close>
  when its text is empty and when its target language is empty, and leaves the state as
  it was: no request is sent. In general it sends exactly one request, carrying its two
  arguments, when both are non-empty, and none otherwise; so every request it sends has
  a non-empty text and a non-empty language.
\<close>

theorem translateText_requires_arguments:
  "translateText fetch [] targetLanguage w =
     (Inl (Error ''Both text and targetLanguage are required.''), w)
   \<and> translateText fetch text [] w =
     (Inl (Error ''Both text and targetLanguage are required.''), w)
   \<and> requests (snd (translateText fetch text targetLanguage w)) =
     (if text = [] \<or> targetLanguage = [] then requests w
      else requests w @ [(text, targetLanguage)])"
  by (simp add: translateText_def)

section \<open>Facts about the markup codec\<close>

text \<open>
  The identifiers of \<^verbatim>\<open>uuidv4()\<close> are written with hexadecimal digits and dashes.
\<close>

definition is_uuid_char :: "char \<Rightarrow> bool" where
  "is_uuid_char c = (c \<in> set ''0123456789abcdef-'')"

definition sample_uuid :: "nat \<Rightarrow> string" where
  "sample_uuid n = ''1b9d6bcd-bbfd-4b2d-9b5d-ab8dfbbd4be'' @ show_nat n"

definition w0 :: world where
  "w0 = \<lparr>uuid_calls = 0, requests = []\<rparr>"

lemma replace_matches_inert:
  "(\<And>c cs. c \<in> set s \<Longrightarrow> m (c # cs) = None) \<Longrightarrow> replace_matches m uuid s ph w = (s, ph, w)"
  by (induction s) auto

lemma match_bold_head: "c \<noteq> CHR ''<'' \<Longrightarrow> match_bold (c # cs) = None"
  by (simp add: match_bold_def)

lemma match_italic_head: "c \<noteq> CHR ''<'' \<Longrightarrow> match_italic (c # cs) = None"
  by (simp add: match_italic_def)

lemma match_link_head: "c \<noteq> CHR ''<'' \<Longrightarrow> match_link (c # cs) = None"
  by (simp add: match_link_def)

lemma match_variable_head: "c \<noteq> CHR ''$'' \<Longrightarrow> match_variable (c # cs) = None"
  by (simp add: match_variable_def)

lemma not_uuid_chars: "\<not> is_uuid_char CHR ''<''" "\<not> is_uuid_char CHR ''$''"
  by (simp_all add: is_uuid_char_def)

lemma uuid_char_plain:
  assumes "list_all is_uuid_char u" and "c \<in> set u"
  shows "c \<noteq> CHR ''<'' \<and> c \<noteq> CHR ''$''"
proof -
  have "is_uuid_char c"
    using assms by (simp add: list_all_iff)
  then show ?thesis
    using not_uuid_chars by blast
qed

text \<open>A text without \<^verbatim>\<open><\<close> and \<^verbatim>\<open>$\<close> is left alone by every pass.\<close>

lemma passes_inert:
  assumes "\<And>c. c \<in> set t \<Longrightarrow> c \<noteq> CHR ''<'' \<and> c \<noteq> CHR ''$''"
  shows "replace_matches match_bold uuid t ph w = (t, ph, w)"
    and "replace_matches match_italic uuid t ph w = (t, ph, w)"
    and "replace_matches match_link uuid t ph w = (t, ph, w)"
    and "replace_matches match_variable uuid t ph w = (t, ph, w)"
  using assms
  by (auto intro!: replace_matches_inert match_bold_head match_italic_head match_link_head
        match_variable_head)

lemma preprocessText_plain:
  assumes "\<And>c. c \<in> set t \<Longrightarrow> c \<noteq> CHR ''<'' \<and> c \<noteq> CHR ''$''"
  shows "preprocessText uuid t w = ((t, []), w)"
  by (simp add: preprocessText_def passes_inert [OF assms])

lemma not_uuid_char_underscore: "\<not> is_uuid_char CHR ''_''"
  by (simp add: is_uuid_char_def)

lemma uuid_not_proto: "list_all is_uuid_char u \<Longrightarrow> u \<noteq> ''__proto__''"
  using not_uuid_char_underscore by auto

lemma js_entries_single: "js_entries [(k, v)] = [(k, v)]"
  by (simp add: js_entries_def)

lemma postprocessText_single:
  "postprocessText text [(uid, content)] = replace_string text (''{{'' @ uid @ ''}}'') content"
  by (simp add: postprocessText_def js_entries_single)

lemma split_first_self: "pat \<noteq> [] \<Longrightarrow> split_first pat (pat @ s) = Some ([], s)"
  by (cases pat) simp_all

lemma show_nat_digits: "show_nat 0 = ''0''" "show_nat (Suc 0) = ''1''"
  by (simp_all add: show_nat.simps digit_char_def)

lemma sample_uuid_values:
  "sample_uuid 0 = ''1b9d6bcd-bbfd-4b2d-9b5d-ab8dfbbd4be0''"
  "sample_uuid (Suc 0) = ''1b9d6bcd-bbfd-4b2d-9b5d-ab8dfbbd4be1''"
  by (simp_all add: sample_uuid_def show_nat_digits)

lemma sample_uuid_chars:
  "list_all is_uuid_char (sample_uuid 0)" "list_all is_uuid_char (sample_uuid (Suc 0))"
  by (simp_all add: sample_uuid_values is_uuid_char_def)

section \<open>Non-greedy matching of bold spans\<close>

lemma bold_pass_two_spans:
  "replace_matches match_bold uuid ''<b>a</b>x<b>c</b>'' [] w =
     (''{{'' @ uuid (uuid_calls w) @ ''}}x{{'' @ uuid (Suc (uuid_calls w)) @ ''}}'',
      js_assign (js_assign [] (uuid (uuid_calls w)) ''<b>a</b>'') (uuid (Suc (uuid_calls w)))
        ''<b>c</b>'',
      w\<lparr>uuid_calls := Suc (Suc (uuid_calls w))\<rparr>)"
  by (simp add: match_bold_def Let_def is_line_terminator_def)

text \<open>
  C9. With two identifiers as \<^verbatim>\<open>uuidv4()\<close> writes them, different from each other,
  \<open>preprocessText\<close> of \<^verbatim>\<open><b>a</b>x<b>c</b>\<close> records exactly two placeholders, the first for
  \<^verbatim>\<open><b>a</b>\<close> and the second for \<^verbatim>\<open><b>c</b>\<close>, and its text is the two delimited tokens
  with \<^verbatim>\<open>x\<close> between them.
\<close>

theorem preprocessText_two_bold_spans:
  assumes "list_all is_uuid_char (uuid (uuid_calls w))"
    and "list_all is_uuid_char (uuid (Suc (uuid_calls w)))"
    and "uuid (uuid_calls w) \<noteq> uuid (Suc (uuid_calls w))"
  shows "preprocessText uuid ''<b>a</b>x<b>c</b>'' w =
     ((''{{'' @ uuid (uuid_calls w) @ ''}}x{{'' @ uuid (Suc (uuid_calls w)) @ ''}}'',
       [(uuid (uuid_calls w), ''<b>a</b>''), (uuid (Suc (uuid_calls w)), ''<b>c</b>'')]),
      w\<lparr>uuid_calls := Suc (Suc (uuid_calls w))\<rparr>)"
proof -
  let ?t = "''{{'' @ uuid (uuid_calls w) @ ''}}x{{'' @ uuid (Suc (uuid_calls w)) @ ''}}''"
  have plain: "c \<noteq> CHR ''<'' \<and> c \<noteq> CHR ''$''" if "c \<in> set ?t" for c
    using that assms(1,2) by (auto dest: uuid_char_plain)
  have "preprocessText uuid ''<b>a</b>x<b>c</b>'' w =
    ((?t, js_assign (js_assign [] (uuid (uuid_calls w)) ''<b>a</b>'')
            (uuid (Suc (uuid_calls w))) ''<b>c</b>''),
     w\<lparr>uuid_calls := Suc (Suc (uuid_calls w))\<rparr>)"
    by (simp only: preprocessText_def bold_pass_two_spans passes_inert [OF plain] prod.case)
  then show ?thesis
    using assms(3) uuid_not_proto [OF assms(1)] uuid_not_proto [OF assms(2)] by simp
qed

theorem preprocessText_two_bold_spans_witness:
  "list_all is_uuid_char (sample_uuid (uuid_calls w0))
   \<and> list_all is_uuid_char (sample_uuid (Suc (uuid_calls w0)))
   \<and> sample_uuid (uuid_calls w0) \<noteq> sample_uuid (Suc (uuid_calls w0))
   \<and> preprocessText sample_uuid ''<b>a</b>x<b>c</b>'' w0 =
     ((''{{1b9d6bcd-bbfd-4b2d-9b5d-ab8dfbbd4be0}}x{{1b9d6bcd-bbfd-4b2d-9b5d-ab8dfbbd4be1}}'',
       [(''1b9d6bcd-bbfd-4b2d-9b5d-ab8dfbbd4be0'', ''<b>a</b>''),
        (''1b9d6bcd-bbfd-4b2d-9b5d-ab8dfbbd4be1'', ''<b>c</b>'')]),
      \<lparr>uuid_calls = 2, requests = []\<rparr>)"
proof -
  have a: "list_all is_uuid_char (sample_uuid (uuid_calls w0))"
    and b: "list_all is_uuid_char (sample_uuid (Suc (uuid_calls w0)))"
    and c: "sample_uuid (uuid_calls w0) \<noteq> sample_uuid (Suc (uuid_calls w0))"
    using sample_uuid_chars by (simp_all add: w0_def sample_uuid_values)
  show ?thesis
    using a b c preprocessText_two_bold_spans [OF a b c]
    by (simp add: w0_def sample_uuid_values)
qed

section \<open>Decoding and the round trip\<close>

text \<open>
  Encoding a string and decoding the unchanged text with the recorded placeholders:
  the codec around a translation step that returns its input.
\<close>

definition round_trip :: "(nat \<Rightarrow> string) \<Rightarrow> string \<Rightarrow> world \<Rightarrow> string" where
  "round_trip uuid s w =
     (case preprocessText uuid s w of
        ((text, placeholders), w') \<Rightarrow> postprocessText text placeholders)"

lemma bold_pass_dollars:
  "replace_matches match_bold uuid ''<b>$$</b>'' [] w =
     (''{{'' @ uuid (uuid_calls w) @ ''}}'', js_assign [] (uuid (uuid_calls w)) ''<b>$$</b>'',
      w\<lparr>uuid_calls := Suc (uuid_calls w)\<rparr>)"
  by (simp add: match_bold_def Let_def is_line_terminator_def)

lemma replace_string_whole:
  "pat \<noteq> [] \<Longrightarrow> replace_string pat pat r = get_substitution pat [] [] r"
  using split_first_self [of pat "[]"] by (simp add: replace_string_def)

text \<open>
  C4, at the input \<^verbatim>\<open><b>$$</b>\<close>. The bold span is recorded as it stands, and the
  decoder hands it to \<^verbatim>\<open>String.prototype.replace\<close> as a replacement template, where
  \<^verbatim>\<open>$$\<close> denotes one dollar sign: the round trip returns \<^verbatim>\<open><b>$</b>\<close>, not the input.
\<close>

theorem round_trip_dollar_fragment:
  assumes "list_all is_uuid_char (uuid (uuid_calls w))"
  shows "round_trip uuid ''<b>$$</b>'' w = ''<b>$</b>''"
proof -
  let ?t = "''{{'' @ uuid (uuid_calls w) @ ''}}''"
  have plain: "c \<noteq> CHR ''<'' \<and> c \<noteq> CHR ''$''" if "c \<in> set ?t" for c
    using that assms by (auto dest: uuid_char_plain)
  have "preprocessText uuid ''<b>$$</b>'' w =
    ((?t, js_assign [] (uuid (uuid_calls w)) ''<b>$$</b>''),
     w\<lparr>uuid_calls := Suc (uuid_calls w)\<rparr>)"
    by (simp only: preprocessText_def bold_pass_dollars passes_inert [OF plain] prod.case)
  then have "preprocessText uuid ''<b>$$</b>'' w =
    ((?t, [(uuid (uuid_calls w), ''<b>$$</b>'')]), w\<lparr>uuid_calls := Suc (uuid_calls w)\<rparr>)"
    using uuid_not_proto [OF assms] by simp
  moreover have "replace_string ?t ?t ''<b>$$</b>'' = ''<b>$</b>''"
    by (subst replace_string_whole) simp_all
  ultimately show ?thesis
    by (simp add: round_trip_def postprocessText_single)
qed

theorem round_trip_dollar_fragment_witness:
  "list_all is_uuid_char (sample_uuid (uuid_calls w0))
   \<and> round_trip sample_uuid ''<b>$$</b>'' w0 = ''<b>$</b>''
   \<and> round_trip sample_uuid ''<b>$$</b>'' w0 \<noteq> ''<b>$$</b>''"
proof -
  have a: "list_all is_uuid_char (sample_uuid (uuid_calls w0))"
    using sample_uuid_chars by (simp add: w0_def)
  show ?thesis
    using a round_trip_dollar_fragment [of sample_uuid w0] by simp
qed

text \<open>
  C5, at the text \<^verbatim>\<open>Hola {{t1}}!\<close> and the pair of the token \<^verbatim>\<open>t1\<close> and the fragment
  \<^verbatim>\<open><b>$&</b>\<close>. The first occurrence of the delimited token is replaced, but by the
  expansion of the fragment as a replacement template, in which \<^verbatim>\<open>$&\<close> is the matched
  token: the result holds \<^verbatim>\<open><b>{{t1}}</b>\<close> where the fragment should stand.
\<close>

theorem postprocessText_expands_template:
  "postprocessText ''Hola {{t1}}!'' [(''t1'', ''<b>$&</b>'')] = ''Hola <b>{{t1}}</b>!''"
  by (simp add: postprocessText_single replace_string_def)

text \<open>
  What does hold of the decoder: a pair whose delimited token is absent changes
  nothing, and a pair whose fragment has no dollar sign puts the fragment in the place
  of the first occurrence of its token and nowhere else.
\<close>

lemma get_substitution_plain:
  "CHR ''$'' \<notin> set r \<Longrightarrow> get_substitution matched front behind r = r"
  by (induction matched front behind r rule: get_substitution.induct) auto

lemma replace_string_absent:
  "split_first pat s = None \<Longrightarrow> replace_string s pat r = s"
  by (simp add: replace_string_def)

lemma split_first_decompose:
  "split_first pat s = Some (front, behind) \<Longrightarrow> s = front @ pat @ behind"
  by (induction s arbitrary: front) (auto split: if_splits option.splits simp: prefix_def)

lemma replace_string_plain:
  "split_first pat s = Some (front, behind) \<Longrightarrow> CHR ''$'' \<notin> set r \<Longrightarrow>
   replace_string s pat r = front @ r @ behind"
  by (simp add: replace_string_def get_substitution_plain)

section \<open>The empty text and the original text\<close>



section \<open>What a call can return\<close>

text \<open>
  The value that a string under the key \<^verbatim>\<open>"translated"\<close> ends with, when its branch of
  the loop is entered in the state \<open>w\<close>: the decoded translation, or the string itself
  when the encoded text is empty or \<open>translateText\<close> throws.
\<close>

definition translated_field ::
  "(string \<Rightarrow> string \<Rightarrow> fetch_result) \<Rightarrow> (nat \<Rightarrow> string) \<Rightarrow> string \<Rightarrow> json \<Rightarrow> world \<Rightarrow>
     json \<times> world" where
  "translated_field fetch uuid targetLanguage v w =
     (case preprocessText uuid (str v) w of
        ((text, placeholders), w1) \<Rightarrow>
          if text \<noteq> [] then
            (case translateText fetch text targetLanguage w1 of
               (Inl e, w2) \<Rightarrow> (v, w2)
             | (Inr translatedText, w2) \<Rightarrow>
                 (JStr (postprocessText translatedText placeholders), w2))
          else (v, w1))"

text \<open>The object that a sequence of assignments builds.\<close>

definition assign_all ::
  "(string \<times> json) list \<Rightarrow> (string \<times> json) list \<Rightarrow> (string \<times> json) list" where
  "assign_all translatedData kvs = foldl (\<lambda>td kv. js_assign td (fst kv) (snd kv)) translatedData kvs"

text \<open>
  The documents that a call can return, whatever the states in which its parts run:
  \<open>translates_to d d'\<close> for a call on \<open>d\<close>, \<open>assigns key v v'\<close> for the value assigned
  under \<open>key\<close> for an entry with the value \<open>v\<close>, and \<open>item_to x y\<close> for the result of
  the callback on the array item \<open>x\<close>.
\<close>

inductive translates_to ::
  "(string \<Rightarrow> string \<Rightarrow> fetch_result) \<Rightarrow> (nat \<Rightarrow> string) \<Rightarrow> string \<Rightarrow> json \<Rightarrow> json \<Rightarrow> bool"
and assigns ::
  "(string \<Rightarrow> string \<Rightarrow> fetch_result) \<Rightarrow> (nat \<Rightarrow> string) \<Rightarrow> string \<Rightarrow> string \<Rightarrow> json \<Rightarrow> json \<Rightarrow> bool"
and item_to ::
  "(string \<Rightarrow> string \<Rightarrow> fetch_result) \<Rightarrow> (nat \<Rightarrow> string) \<Rightarrow> string \<Rightarrow> json \<Rightarrow> json \<Rightarrow> bool"
for fetch uuid targetLanguage
where
  call:
    "object_entries d = Inr es \<Longrightarrow>
     list_all2 (\<lambda>e v'. assigns fetch uuid targetLanguage (fst e) (snd e) v') es vs \<Longrightarrow>
     translates_to fetch uuid targetLanguage d (JObj (assign_all [] (zip (map fst es) vs)))"
| original:
    "assigns fetch uuid targetLanguage ''original'' v v"
| translated:
    "is_JStr v \<Longrightarrow>
     assigns fetch uuid targetLanguage ''translated''
       v (fst (translated_field fetch uuid targetLanguage v w))"
| array:
    "key \<noteq> ''original'' \<Longrightarrow>
     list_all2 (item_to fetch uuid targetLanguage) xs ys \<Longrightarrow>
     assigns fetch uuid targetLanguage key (JArr xs) (JArr ys)"
| object:
    "key \<noteq> ''original'' \<Longrightarrow>
     translates_to fetch uuid targetLanguage (JObj props) d' \<Longrightarrow>
     assigns fetch uuid targetLanguage key (JObj props) d'"
| other:
    "key \<noteq> ''original'' \<Longrightarrow> \<not> (key = ''translated'' \<and> is_JStr v) \<Longrightarrow> \<not> is_object v \<Longrightarrow>
     assigns fetch uuid targetLanguage key v v"
| item_call:
    "is_object x \<Longrightarrow> translates_to fetch uuid targetLanguage x y \<Longrightarrow>
     item_to fetch uuid targetLanguage x y"
| item_plain:
    "\<not> is_object x \<Longrightarrow> item_to fetch uuid targetLanguage x x"

text \<open>
  \<open>built passed translatedData\<close>: the object is what the loop has built from the
  entries \<open>passed\<close>.
\<close>

definition built ::
  "(string \<Rightarrow> string \<Rightarrow> fetch_result) \<Rightarrow> (nat \<Rightarrow> string) \<Rightarrow> string \<Rightarrow> (string \<times> json) list \<Rightarrow>
     (string \<times> json) list \<Rightarrow> bool" where
  "built fetch uuid targetLanguage passed translatedData =
     (\<exists>vs. list_all2 (\<lambda>e v'. assigns fetch uuid targetLanguage (fst e) (snd e) v') passed vs
        \<and> translatedData = assign_all [] (zip (map fst passed) vs))"

text \<open>
  \<open>tracks d t\<close>: the task \<open>t\<close> is a call on \<open>d\<close>, returned with one of the documents
  above or suspended at one of its entries with the entries before it assigned.
\<close>

inductive tracks ::
  "(string \<Rightarrow> string \<Rightarrow> fetch_result) \<Rightarrow> (nat \<Rightarrow> string) \<Rightarrow> string \<Rightarrow> json \<Rightarrow> task \<Rightarrow> bool"
for fetch uuid targetLanguage
where
  returned:
    "translates_to fetch uuid targetLanguage d d' \<Longrightarrow>
     tracks fetch uuid targetLanguage d (Finished (Inr d'))"
| at_text:
    "object_entries d = Inr (passed @ (''translated'', v) # rest) \<Longrightarrow>
     built fetch uuid targetLanguage passed translatedData \<Longrightarrow>
     is_JStr v \<Longrightarrow>
     preprocessText uuid (str v) w = ((text, placeholders), w1) \<Longrightarrow>
     text \<noteq> [] \<Longrightarrow>
     translateText fetch text targetLanguage w1 = (r, w2) \<Longrightarrow>
     tracks fetch uuid targetLanguage d
       (AwaitText (''translated'', v, rest, translatedData) placeholders r)"
| at_array:
    "object_entries d = Inr (passed @ (key, JArr xs) # rest) \<Longrightarrow>
     built fetch uuid targetLanguage passed translatedData \<Longrightarrow>
     key \<noteq> ''original'' \<Longrightarrow>
     list_all2 (\<lambda>x t. (is_object x \<and> tracks fetch uuid targetLanguage x t)
                  \<or> (\<not> is_object x \<and> t = Finished (Inr x))) xs tasks \<Longrightarrow>
     tracks fetch uuid targetLanguage d (AwaitAll (key, JArr xs, rest, translatedData) tasks)"
| at_object:
    "object_entries d = Inr (passed @ (key, JObj props) # rest) \<Longrightarrow>
     built fetch uuid targetLanguage passed translatedData \<Longrightarrow>
     key \<noteq> ''original'' \<Longrightarrow>
     tracks fetch uuid targetLanguage (JObj props) t \<Longrightarrow>
     tracks fetch uuid targetLanguage d (AwaitCall (key, JObj props, rest, translatedData) t)"

definition tracks_item ::
  "(string \<Rightarrow> string \<Rightarrow> fetch_result) \<Rightarrow> (nat \<Rightarrow> string) \<Rightarrow> string \<Rightarrow> json \<Rightarrow> task \<Rightarrow> bool" where
  "tracks_item fetch uuid targetLanguage x t =
     ((is_object x \<and> tracks fetch uuid targetLanguage x t) \<or> (\<not> is_object x \<and> t = Finished (Inr x)))"

section \<open>Every task of a run tracks its document\<close>

lemma assign_all_snoc:
  "assign_all td (kvs @ [(k, v)]) = js_assign (assign_all td kvs) k v"
  by (simp add: assign_all_def)

lemma built_empty: "built fetch uuid targetLanguage [] []"
  by (simp add: built_def assign_all_def)

lemma built_snoc:
  assumes "built fetch uuid targetLanguage passed td"
    and "assigns fetch uuid targetLanguage key v v'"
  shows "built fetch uuid targetLanguage (passed @ [(key, v)]) (js_assign td key v')"
proof -
  from assms(1) obtain vs where
    vs: "list_all2 (\<lambda>e v'. assigns fetch uuid targetLanguage (fst e) (snd e) v') passed vs"
    and td: "td = assign_all [] (zip (map fst passed) vs)"
    by (auto simp: built_def)
  have len: "length passed = length vs"
    using vs by (rule list_all2_lengthD)
  have "list_all2 (\<lambda>e v'. assigns fetch uuid targetLanguage (fst e) (snd e) v')
      (passed @ [(key, v)]) (vs @ [v'])"
    using vs assms(2) by (simp add: list_all2_appendI)
  moreover have "js_assign td key v' =
      assign_all [] (zip (map fst (passed @ [(key, v)])) (vs @ [v']))"
    using len by (simp add: td assign_all_snoc)
  ultimately show ?thesis
    unfolding built_def by blast
qed

lemma built_returned:
  assumes "object_entries d = Inr passed" and "built fetch uuid targetLanguage passed td"
  shows "tracks fetch uuid targetLanguage d (Finished (Inr (JObj td)))"
proof -
  from assms(2) obtain vs where
    "list_all2 (\<lambda>e v'. assigns fetch uuid targetLanguage (fst e) (snd e) v') passed vs"
    "td = assign_all [] (zip (map fst passed) vs)"
    by (auto simp: built_def)
  then show ?thesis
    using assms(1) by (auto intro!: tracks.returned translates_to_assigns_item_to.call)
qed

lemma is_object_entries: "is_object v \<Longrightarrow> \<exists>entries. object_entries v = Inr entries"
  by (cases v) simp_all

lemma translated_field_outcome:
  assumes "preprocessText uuid (str v) w = ((text, placeholders), w1)"
    and "text \<noteq> []"
    and "translateText fetch text targetLanguage w1 = (r, w2)"
  shows "fst (translated_field fetch uuid targetLanguage v w) =
     (case r of Inl e \<Rightarrow> v | Inr t \<Rightarrow> JStr (postprocessText t placeholders))"
  using assms by (simp add: translated_field_def split: sum.splits)

lemma translated_field_empty:
  assumes "preprocessText uuid (str v) w = (([], placeholders), w1)"
  shows "fst (translated_field fetch uuid targetLanguage v w) = v"
  using assms by (simp add: translated_field_def)

text \<open>The synchronous part of a call leaves a task that tracks the document.\<close>

lemma start_tracks:
  "object_entries data = Inr es \<Longrightarrow>
     tracks fetch uuid targetLanguage data (fst (translateNestedJson fetch uuid targetLanguage data w))"
  "object_entries d = Inr (passed @ entries) \<Longrightarrow> built fetch uuid targetLanguage passed td \<Longrightarrow>
     tracks fetch uuid targetLanguage d (fst (translate_entries fetch uuid targetLanguage entries td w))"
  "list_all2 (tracks_item fetch uuid targetLanguage) items
     (fst (translate_items fetch uuid targetLanguage items w))"
proof (induction fetch uuid targetLanguage data w
    and fetch uuid targetLanguage entries td w
    and fetch uuid targetLanguage items w
    arbitrary: es and d passed and
    rule: translateNestedJson_translate_entries_translate_items.induct)
  case (1 fetch uuid targetLanguage data w)
  show ?case
    using "1.prems" "1.IH" [OF "1.prems", of data "[]"] built_empty
    by (simp add: translateNestedJson.simps)
next
  case (2 fetch uuid targetLanguage translatedData w)
  then show ?case
    by (simp add: built_returned)
next
  case (3 fetch uuid targetLanguage key v entries translatedData w)
  have ents: "object_entries d = Inr ((passed @ [(key, v)]) @ entries)"
    using "3.prems"(1) by simp
  note b = "3.prems"(2)
  show ?case
  proof (cases "key = ''original''")
    case True
    have "built fetch uuid targetLanguage (passed @ [(key, v)]) (js_assign translatedData key v)"
      using b True by (auto intro: built_snoc translates_to_assigns_item_to.original)
    from "3.IH"(1) [OF True ents this] show ?thesis
      using True by simp
  next
    case no: False
    show ?thesis
    proof (cases "key = ''translated'' \<and> is_JStr v")
      case True
      obtain enc placeholders w1 where
        pre: "preprocessText uuid (str v) w = ((enc, placeholders), w1)"
        by (metis prod.exhaust)
      show ?thesis
      proof (cases "enc = []")
        case True
        have "assigns fetch uuid targetLanguage key v v"
          using translates_to_assigns_item_to.translated [of v fetch uuid targetLanguage w]
            \<open>key = ''translated'' \<and> is_JStr v\<close> translated_field_empty pre True
          by metis
        then have "built fetch uuid targetLanguage (passed @ [(key, v)])
            (js_assign translatedData key v)"
          using b by (rule built_snoc [rotated])
        moreover have "\<not> enc \<noteq> []"
          using True by simp
        ultimately have "tracks fetch uuid targetLanguage d
            (fst (translate_entries fetch uuid targetLanguage entries
                   (js_assign translatedData key v) w1))"
          using "3.IH"(2) [OF no \<open>key = ''translated'' \<and> is_JStr v\<close> pre [symmetric] refl _ ents]
          by blast
        then show ?thesis
          using no \<open>key = ''translated'' \<and> is_JStr v\<close> pre True by simp
      next
        case False
        obtain r w2 where tt: "translateText fetch enc targetLanguage w1 = (r, w2)"
          by (metis prod.exhaust)
        have "tracks fetch uuid targetLanguage d
            (AwaitText (''translated'', v, entries, translatedData) placeholders r)"
          using "3.prems"(1) b \<open>key = ''translated'' \<and> is_JStr v\<close> pre False tt
          by (auto intro: tracks.at_text)
        then show ?thesis
          using no \<open>key = ''translated'' \<and> is_JStr v\<close> pre False tt by simp
      qed
    next
      case nt: False
      show ?thesis
      proof (cases v)
        case (JArr xs)
        obtain tasks w1 where ti: "translate_items fetch uuid targetLanguage xs w = (tasks, w1)"
          by (metis prod.exhaust)
        have "list_all2 (tracks_item fetch uuid targetLanguage) xs tasks"
          using "3.IH"(7) [OF no nt JArr] ti by simp
        then have "tracks fetch uuid targetLanguage d
            (AwaitAll (key, JArr xs, entries, translatedData) tasks)"
          using "3.prems"(1) b no JArr
          by (auto intro!: tracks.at_array simp: tracks_item_def [abs_def])
        then show ?thesis
          using no nt JArr ti by simp
      next
        case (JObj props)
        obtain t w1 where tn: "translateNestedJson fetch uuid targetLanguage v w = (t, w1)"
          by (metis prod.exhaust)
        have "object_entries v = Inr (js_entries props)"
          using JObj by simp
        from "3.IH"(8) [OF no nt JObj this] have "tracks fetch uuid targetLanguage v t"
          using tn by simp
        then have "tracks fetch uuid targetLanguage d
            (AwaitCall (key, JObj props, entries, translatedData) t)"
          using "3.prems"(1) b no JObj by (auto intro!: tracks.at_object)
        then show ?thesis
          using no nt JObj tn by simp
      next
        case JNull
        have "assigns fetch uuid targetLanguage key v v"
          using no nt JNull by (auto intro: translates_to_assigns_item_to.other)
        then have "built fetch uuid targetLanguage (passed @ [(key, v)])
            (js_assign translatedData key v)"
          using b by (rule built_snoc [rotated])
        from "3.IH"(3) [OF no nt JNull ents this] show ?thesis
          using no nt JNull by simp
      next
        case (JBool x)
        have "assigns fetch uuid targetLanguage key v v"
          using no nt JBool by (auto intro: translates_to_assigns_item_to.other)
        then have "built fetch uuid targetLanguage (passed @ [(key, v)])
            (js_assign translatedData key v)"
          using b by (rule built_snoc [rotated])
        from "3.IH"(4) [OF no nt JBool ents this] show ?thesis
          using no nt JBool by simp
      next
        case (JNum x)
        have "assigns fetch uuid targetLanguage key v v"
          using no nt JNum by (auto intro: translates_to_assigns_item_to.other)
        then have "built fetch uuid targetLanguage (passed @ [(key, v)])
            (js_assign translatedData key v)"
          using b by (rule built_snoc [rotated])
        from "3.IH"(5) [OF no nt JNum ents this] show ?thesis
          using no nt JNum by simp
      next
        case (JStr x)
        have "assigns fetch uuid targetLanguage key v v"
          using no nt JStr by (auto intro: translates_to_assigns_item_to.other)
        then have "built fetch uuid targetLanguage (passed @ [(key, v)])
            (js_assign translatedData key v)"
          using b by (rule built_snoc [rotated])
        from "3.IH"(6) [OF no nt JStr ents this] show ?thesis
          using no nt JStr by simp
      qed
    qed
  qed
next
  case (4 fetch uuid targetLanguage w)
  then show ?case by simp
next
  case (5 fetch uuid targetLanguage item items w)
  show ?case
  proof (cases "is_object item")
    case True
    obtain t w1 where tn: "translateNestedJson fetch uuid targetLanguage item w = (t, w1)"
      by (metis prod.exhaust)
    obtain es where "object_entries item = Inr es"
      using True is_object_entries by blast
    from "5.IH"(1) [OF True this] have "tracks_item fetch uuid targetLanguage item t"
      using tn True by (simp add: tracks_item_def)
    moreover have "list_all2 (tracks_item fetch uuid targetLanguage) items
        (fst (translate_items fetch uuid targetLanguage items w1))"
      using "5.IH"(2) [OF True tn [symmetric]] .
    ultimately show ?thesis
      using True tn by (auto split: prod.splits)
  next
    case False
    have "list_all2 (tracks_item fetch uuid targetLanguage) items
        (fst (translate_items fetch uuid targetLanguage items w))"
      using "5.IH"(3) [OF False] .
    moreover have "tracks_item fetch uuid targetLanguage item (Finished (Inr item))"
      using False by (simp add: tracks_item_def)
    ultimately show ?thesis
      using False by (auto split: prod.splits)
  qed
qed

text \<open>A tracked call never returns an error, so \<^verbatim>\<open>Promise.all\<close> is never rejected.\<close>

lemma tracks_Finished:
  "tracks fetch uuid targetLanguage d (Finished r) \<Longrightarrow>
   \<exists>d'. r = Inr d' \<and> translates_to fetch uuid targetLanguage d d'"
  by (erule tracks.cases) auto

lemma tracks_item_Finished:
  "tracks_item fetch uuid targetLanguage x (Finished r) \<Longrightarrow>
   \<exists>y. r = Inr y \<and> item_to fetch uuid targetLanguage x y"
  by (auto simp: tracks_item_def dest!: tracks_Finished
      intro: translates_to_assigns_item_to.item_call translates_to_assigns_item_to.item_plain)

lemma promise_all_tracked_both:
  "list_all2 (tracks_item fetch uuid targetLanguage) xs tasks \<Longrightarrow>
   promise_all tasks \<noteq> Some (Inl e)
   \<and> (\<forall>ys. promise_all tasks = Some (Inr ys) \<longrightarrow>
         list_all2 (item_to fetch uuid targetLanguage) xs ys)"
proof (induction xs tasks rule: list_all2_induct)
  case Nil
  then show ?case by simp
next
  case (Cons x xs t tasks)
  show ?case
  proof (cases t)
    case (Finished r)
    then obtain y where "r = Inr y" and "item_to fetch uuid targetLanguage x y"
      using Cons.hyps(1) tracks_item_Finished by blast
    then show ?thesis
      using Finished Cons.IH by (auto split: option.splits sum.splits)
  next
    case (AwaitText x21 x22 x23)
    then show ?thesis
      using Cons.IH by (auto split: option.splits sum.splits)
  next
    case (AwaitAll x31 x32)
    then show ?thesis
      using Cons.IH by (auto split: option.splits sum.splits)
  next
    case (AwaitCall x41 x42)
    then show ?thesis
      using Cons.IH by (auto split: option.splits sum.splits)
  qed
qed

lemma promise_all_tracked:
  assumes "list_all2 (tracks_item fetch uuid targetLanguage) xs tasks"
  shows "promise_all tasks \<noteq> Some (Inl e)"
    and "promise_all tasks = Some (Inr ys) \<Longrightarrow> list_all2 (item_to fetch uuid targetLanguage) xs ys"
  using promise_all_tracked_both [OF assms] by blast+

lemma continue_tracks:
  assumes "object_entries d = Inr (passed @ (key, v) # rest)"
    and "built fetch uuid targetLanguage passed td"
    and "assigns fetch uuid targetLanguage key v v'"
  shows "tracks fetch uuid targetLanguage d
     (fst (continue fetch uuid targetLanguage (key, v, rest, td) v' w))"
proof -
  have "object_entries d = Inr ((passed @ [(key, v)]) @ rest)"
    using assms(1) by simp
  moreover have "built fetch uuid targetLanguage (passed @ [(key, v)]) (js_assign td key v')"
    using assms(2,3) by (rule built_snoc)
  ultimately show ?thesis
    using start_tracks(2) by simp
qed

text \<open>Resuming any suspended call of a task keeps the task tracking its document.\<close>

lemma resume_tracks:
  "tracks fetch uuid targetLanguage d t \<Longrightarrow>
     tracks fetch uuid targetLanguage d (fst (resume fetch uuid targetLanguage n t w))"
  "list_all2 (tracks_item fetch uuid targetLanguage) xs tasks \<Longrightarrow>
     list_all2 (tracks_item fetch uuid targetLanguage) xs
       (fst (resume_list fetch uuid targetLanguage n tasks w))"
proof (induction fetch uuid targetLanguage n t w and fetch uuid targetLanguage n tasks w
    arbitrary: d and xs rule: resume_resume_list.induct)
  case (1 fetch uuid targetLanguage n r w)
  then show ?case by simp
next
  case (2 fetch uuid targetLanguage n fr placeholders r w)
  from "2.prems" show ?case
  proof (cases rule: tracks.cases)
    case (at_text passed v rest translatedData w0 enc w1 w2)
    have "fst (translated_field fetch uuid targetLanguage v w0) =
        (case r of Inl e \<Rightarrow> v | Inr t \<Rightarrow> JStr (postprocessText t placeholders))"
      using at_text by (intro translated_field_outcome)
    then have "assigns fetch uuid targetLanguage ''translated'' v
        (case r of Inl e \<Rightarrow> v | Inr t \<Rightarrow> JStr (postprocessText t placeholders))"
      using translates_to_assigns_item_to.translated [of v fetch uuid targetLanguage w0] at_text
      by simp
    from continue_tracks [OF at_text(2,3) this, of w] show ?thesis
      using at_text(1) by (cases r) simp_all
  qed
next
  case (3 fetch uuid targetLanguage n fr tasks w)
  from "3.prems" show ?case
  proof (cases rule: tracks.cases)
    case (at_array passed key xs0 rest translatedData)
    have tr: "list_all2 (tracks_item fetch uuid targetLanguage) xs0 tasks"
      using at_array(5) by (simp add: tracks_item_def [abs_def])
    show ?thesis
    proof (cases "promise_all tasks")
      case None
      have "list_all2 (tracks_item fetch uuid targetLanguage) xs0
          (fst (resume_list fetch uuid targetLanguage n tasks w))"
        using "3.IH" [OF None tr] .
      then have "tracks fetch uuid targetLanguage d
          (AwaitAll (key, JArr xs0, rest, translatedData)
            (fst (resume_list fetch uuid targetLanguage n tasks w)))"
        using at_array by (auto intro!: tracks.at_array simp: tracks_item_def [abs_def])
      then show ?thesis
        using None at_array(1) by (auto split: prod.splits)
    next
      case (Some res)
      then obtain ys where res: "res = Inr ys"
        using promise_all_tracked(1) [OF tr] by (cases res) auto
      have "list_all2 (item_to fetch uuid targetLanguage) xs0 ys"
        using promise_all_tracked(2) [OF tr] Some res by simp
      then have "assigns fetch uuid targetLanguage key (JArr xs0) (JArr ys)"
        using at_array(4) by (rule translates_to_assigns_item_to.array [rotated])
      from continue_tracks [OF at_array(2,3) this, of w] show ?thesis
        using Some res at_array(1) by simp
    qed
  qed
next
  case (4 fetch uuid targetLanguage n fr t w)
  from "4.prems" show ?case
  proof (cases rule: tracks.cases)
    case (at_object passed key props rest translatedData)
    show ?thesis
    proof (cases t)
      case (Finished r)
      then obtain d' where r: "r = Inr d'"
        and "translates_to fetch uuid targetLanguage (JObj props) d'"
        using at_object(5) tracks_Finished by blast
      then have "assigns fetch uuid targetLanguage key (JObj props) d'"
        using at_object(4) by (auto intro: translates_to_assigns_item_to.object)
      from continue_tracks [OF at_object(2,3) this, of w] show ?thesis
        using Finished r at_object(1) by simp
    next
      case (AwaitText x21 x22 x23)
      have "tracks fetch uuid targetLanguage (JObj props)
          (fst (resume fetch uuid targetLanguage n t w))"
        using "4.IH"(1) [OF AwaitText at_object(5)] .
      then have "tracks fetch uuid targetLanguage d
          (AwaitCall (key, JObj props, rest, translatedData)
            (fst (resume fetch uuid targetLanguage n t w)))"
        using at_object by (auto intro!: tracks.at_object)
      then show ?thesis
        using AwaitText at_object(1) by (auto split: prod.splits)
    next
      case (AwaitAll x31 x32)
      have "tracks fetch uuid targetLanguage (JObj props)
          (fst (resume fetch uuid targetLanguage n t w))"
        using "4.IH"(2) [OF AwaitAll at_object(5)] .
      then have "tracks fetch uuid targetLanguage d
          (AwaitCall (key, JObj props, rest, translatedData)
            (fst (resume fetch uuid targetLanguage n t w)))"
        using at_object by (auto intro!: tracks.at_object)
      then show ?thesis
        using AwaitAll at_object(1) by (auto split: prod.splits)
    next
      case (AwaitCall x41 x42)
      have "tracks fetch uuid targetLanguage (JObj props)
          (fst (resume fetch uuid targetLanguage n t w))"
        using "4.IH"(3) [OF AwaitCall at_object(5)] .
      then have "tracks fetch uuid targetLanguage d
          (AwaitCall (key, JObj props, rest, translatedData)
            (fst (resume fetch uuid targetLanguage n t w)))"
        using at_object by (auto intro!: tracks.at_object)
      then show ?thesis
        using AwaitCall at_object(1) by (auto split: prod.splits)
    qed
  qed
next
  case (5 fetch uuid targetLanguage n w)
  then show ?case by simp
next
  case (6 fetch uuid targetLanguage n t tasks w)
  from "6.prems" obtain x xs' where xs: "xs = x # xs'"
    and h: "tracks_item fetch uuid targetLanguage x t"
    and tl: "list_all2 (tracks_item fetch uuid targetLanguage) xs' tasks"
    by (auto simp: list_all2_Cons2)
  show ?case
  proof (cases "n < enabled t")
    case True
    have "tracks_item fetch uuid targetLanguage x (fst (resume fetch uuid targetLanguage n t w))"
    proof (cases "is_object x")
      case obj: True
      then have "tracks fetch uuid targetLanguage x t"
        using h by (simp add: tracks_item_def)
      from "6.IH"(1) [OF True this] show ?thesis
        using obj by (simp add: tracks_item_def)
    next
      case False
      then show ?thesis
        using h by (simp add: tracks_item_def)
    qed
    then show ?thesis
      using True xs tl by (auto split: prod.splits)
  next
    case False
    have "list_all2 (tracks_item fetch uuid targetLanguage) xs'
        (fst (resume_list fetch uuid targetLanguage (n - enabled t) tasks w))"
      using "6.IH"(2) [OF False tl] .
    then show ?thesis
      using False xs h by (auto split: prod.splits)
  qed
qed

lemma run_tracks:
  "tracks fetch uuid targetLanguage d t \<Longrightarrow>
   tracks fetch uuid targetLanguage d (fst (run fetch uuid targetLanguage schedule t w))"
proof (induction schedule arbitrary: t w)
  case Nil
  then show ?case by simp
next
  case (Cons n schedule)
  obtain t' w' where r: "resume fetch uuid targetLanguage n t w = (t', w')"
    by (metis prod.exhaust)
  then have "tracks fetch uuid targetLanguage d t'"
    using resume_tracks(1) [OF Cons.prems, of n w] by simp
  from Cons.IH [OF this] show ?case
    using r by simp
qed

text \<open>
  Whatever the schedule, a call on anything but null that has returned at the end of
  the run has returned one of the documents of \<open>translates_to\<close>.
\<close>

lemma run_returns:
  assumes "data \<noteq> JNull"
    and "translateNestedJson fetch uuid targetLanguage data w = (t, w1)"
    and "run fetch uuid targetLanguage schedule t w1 = (Finished r, w')"
  shows "\<exists>d'. r = Inr d' \<and> translates_to fetch uuid targetLanguage data d'"
proof -
  obtain es where "object_entries data = Inr es"
    using assms(1) by (cases data) simp_all
  then have "tracks fetch uuid targetLanguage data t"
    using start_tracks(1) [of data es fetch uuid targetLanguage w] assms(2) by simp
  then have "tracks fetch uuid targetLanguage data (Finished r)"
    using run_tracks [of fetch uuid targetLanguage data t schedule w1] assms(3) by simp
  then show ?thesis
    by (rule tracks_Finished)
qed

section \<open>Keys and properties\<close>

















section \<open>Positions in a document\<close>











section \<open>Every call returns\<close>

text \<open>
  A bound on the number of resumptions that a call still needs: \<open>doc_work\<close> for a
  call on an array or an object that has not started, \<open>entries_work\<close> for the entries
  that a loop has before it, \<open>pending\<close> for a task.
\<close>

fun doc_work :: "json \<Rightarrow> nat" where
  "doc_work (JObj es) = sum_list (map (\<lambda>e. Suc (doc_work (snd e))) es)"
| "doc_work (JArr xs) = sum_list (map (\<lambda>x. Suc (doc_work x)) xs)"
| "doc_work v = 0"

definition entries_work :: "(string \<times> json) list \<Rightarrow> nat" where
  "entries_work es = sum_list (map (\<lambda>e. Suc (doc_work (snd e))) es)"

fun pending :: "task \<Rightarrow> nat" where
  "pending (Finished r) = 0"
| "pending (AwaitText fr placeholders r) = Suc (entries_work (fst (snd (snd fr))))"
| "pending (AwaitAll fr tasks) =
     Suc (sum_list (map pending tasks) + entries_work (fst (snd (snd fr))))"
| "pending (AwaitCall fr t) = Suc (pending t + entries_work (fst (snd (snd fr))))"

lemma entries_work_Cons [simp]:
  "entries_work ((k, v) # es) = Suc (doc_work v + entries_work es)"
  by (simp add: entries_work_def)

lemma entries_work_Nil [simp]: "entries_work [] = 0"
  by (simp add: entries_work_def)

lemma entries_work_object:
  "is_object d \<Longrightarrow> object_entries d = Inr es \<Longrightarrow> entries_work es = doc_work d"
proof (cases d)
  case (JArr xs)
  assume "object_entries d = Inr es"
  then have "es = zip (map show_nat [0..<length xs]) xs"
    using JArr by simp
  then have "map (\<lambda>e. Suc (doc_work (snd e))) es = map (\<lambda>x. Suc (doc_work x)) xs"
    using map_snd_zip_fun [of "map show_nat [0..<length xs]" xs "\<lambda>x. Suc (doc_work x)"] by simp
  then show ?thesis
    using JArr by (simp add: entries_work_def)
next
  case (JObj props)
  assume "object_entries d = Inr es"
  then show ?thesis
    using JObj by (auto simp: entries_work_def sum_list_js_entries)
qed simp_all

lemma start_pending:
  "is_object data \<Longrightarrow>
     pending (fst (translateNestedJson fetch uuid targetLanguage data w)) \<le> doc_work data"
  "pending (fst (translate_entries fetch uuid targetLanguage entries td w)) \<le> entries_work entries"
  "sum_list (map pending (fst (translate_items fetch uuid targetLanguage items w)))
     \<le> sum_list (map doc_work items)"
proof (induction fetch uuid targetLanguage data w
    and fetch uuid targetLanguage entries td w
    and fetch uuid targetLanguage items w
    rule: translateNestedJson_translate_entries_translate_items.induct)
  case (1 fetch uuid targetLanguage data w)
  obtain es where es: "object_entries data = Inr es"
    using "1.prems" is_object_entries by blast
  have "pending (fst (translate_entries fetch uuid targetLanguage es [] w)) \<le> entries_work es"
    using "1.IH" [OF es] .
  then show ?case
    using es entries_work_object [OF "1.prems" es] by (simp add: translateNestedJson.simps)
next
  case (2 fetch uuid targetLanguage translatedData w)
  then show ?case by simp
next
  case (3 fetch uuid targetLanguage key v entries translatedData w)
  show ?case
  proof (cases "key = ''original''")
    case True
    then show ?thesis
      using "3.IH"(1) [OF True] by (simp add: le_SucI trans_le_add2)
  next
    case no: False
    show ?thesis
    proof (cases "key = ''translated'' \<and> is_JStr v")
      case True
      obtain enc placeholders w1 where
        pre: "preprocessText uuid (str v) w = ((enc, placeholders), w1)"
        by (metis prod.exhaust)
      show ?thesis
      proof (cases "enc = []")
        case empty: True
        have "pending (fst (translate_entries fetch uuid targetLanguage entries
            (js_assign translatedData key v) w1)) \<le> entries_work entries"
          using "3.IH"(2) [OF no True pre [symmetric] refl] empty by blast
        then show ?thesis
          using no True pre empty by (simp add: le_SucI trans_le_add2)
      next
        case False
        then show ?thesis
          using no True pre by (auto split: prod.splits)
      qed
    next
      case nt: False
      show ?thesis
      proof (cases v)
        case (JArr xs)
        have "sum_list (map pending (fst (translate_items fetch uuid targetLanguage xs w)))
            \<le> sum_list (map doc_work xs)"
          using "3.IH"(7) [OF no nt JArr] .
        also have "\<dots> \<le> sum_list (map (\<lambda>x. Suc (doc_work x)) xs)"
          by (rule sum_list_mono) simp
        finally show ?thesis
          using no nt JArr by (auto split: prod.splits)
      next
        case (JObj props)
        have "pending (fst (translateNestedJson fetch uuid targetLanguage v w)) \<le> doc_work v"
          using "3.IH"(8) [OF no nt JObj] JObj by simp
        then show ?thesis
          using no nt JObj by (auto split: prod.splits)
      next
        case JNull
        then show ?thesis
          using no nt "3.IH"(3) [OF no nt JNull] by (simp add: le_SucI)
      next
        case (JBool x)
        then show ?thesis
          using no nt "3.IH"(4) [OF no nt JBool] by (simp add: le_SucI)
      next
        case (JNum x)
        then show ?thesis
          using no nt "3.IH"(5) [OF no nt JNum] by (simp add: le_SucI)
      next
        case (JStr x)
        then show ?thesis
          using no nt "3.IH"(6) [OF no nt JStr] by (simp add: le_SucI)
      qed
    qed
  qed
next
  case (4 fetch uuid targetLanguage w)
  then show ?case by simp
next
  case (5 fetch uuid targetLanguage item items w)
  show ?case
  proof (cases "is_object item")
    case True
    obtain t w1 where tn: "translateNestedJson fetch uuid targetLanguage item w = (t, w1)"
      by (metis prod.exhaust)
    have "pending t \<le> doc_work item"
      using "5.IH"(1) [OF True True] tn by simp
    moreover have "sum_list (map pending (fst (translate_items fetch uuid targetLanguage items w1)))
        \<le> sum_list (map doc_work items)"
      using "5.IH"(2) [OF True tn [symmetric]] .
    ultimately show ?thesis
      using True tn by (auto split: prod.splits)
  next
    case False
    have "sum_list (map pending (fst (translate_items fetch uuid targetLanguage items w)))
        \<le> sum_list (map doc_work items)"
      using "5.IH"(3) [OF False] .
    then show ?thesis
      using False by (auto split: prod.splits)
  qed
qed

lemma continue_pending:
  "pending (fst (continue fetch uuid targetLanguage fr v' w)) \<le> entries_work (fst (snd (snd fr)))"
  by (cases fr) (simp add: start_pending(2))

lemma promise_all_pending:
  "promise_all tasks = None \<Longrightarrow> \<exists>t\<in>set tasks. \<forall>r. t \<noteq> Finished r"
proof (induction tasks)
  case Nil
  then show ?case by simp
next
  case (Cons t tasks)
  then show ?case
    by (cases t) (auto split: sum.splits option.splits)
qed

lemma enabled_positive: "\<forall>r. t \<noteq> Finished r \<Longrightarrow> 0 < enabled t"
proof (induction t)
  case (Finished r)
  then show ?case by simp
next
  case (AwaitText fr placeholders r)
  then show ?case by simp
next
  case (AwaitAll fr tasks)
  show ?case
  proof (cases "promise_all tasks")
    case None
    then obtain t where t: "t \<in> set tasks" "\<forall>r. t \<noteq> Finished r"
      using promise_all_pending by blast
    then have "0 < enabled t"
      using AwaitAll.IH by blast
    moreover have "enabled t \<le> sum_list (map enabled tasks)"
      using t(1) by (simp add: member_le_sum_list)
    ultimately show ?thesis
      using None by simp
  next
    case (Some a)
    then show ?thesis by simp
  qed
next
  case (AwaitCall fr t)
  then show ?case
    by (cases t) simp_all
qed

lemma resume_pending:
  "n < enabled t \<Longrightarrow> pending (fst (resume fetch uuid targetLanguage n t w)) < pending t"
  "n < sum_list (map enabled tasks) \<Longrightarrow>
     sum_list (map pending (fst (resume_list fetch uuid targetLanguage n tasks w)))
       < sum_list (map pending tasks)"
proof (induction fetch uuid targetLanguage n t w and fetch uuid targetLanguage n tasks w
    rule: resume_resume_list.induct)
  case (1 fetch uuid targetLanguage n r w)
  then show ?case by simp
next
  case (2 fetch uuid targetLanguage n fr placeholders r w)
  show ?case
    using continue_pending [of fetch uuid targetLanguage fr _ w]
    by (cases r) (simp_all add: less_Suc_eq_le)
next
  case (3 fetch uuid targetLanguage n fr tasks w)
  show ?case
  proof (cases "promise_all tasks")
    case None
    have "sum_list (map pending (fst (resume_list fetch uuid targetLanguage n tasks w)))
        < sum_list (map pending tasks)"
      using "3.IH" [OF None] "3.prems" None by simp
    then show ?thesis
      using None by (auto split: prod.splits)
  next
    case (Some a)
    have "pending (fst (continue fetch uuid targetLanguage fr v' w))
        < pending (AwaitAll fr tasks)" for v'
      using continue_pending [of fetch uuid targetLanguage fr v' w] by simp
    then show ?thesis
      using Some by (cases a) simp_all
  qed
next
  case (4 fetch uuid targetLanguage n fr t w)
  have c: "pending (fst (continue fetch uuid targetLanguage fr v' w))
      < pending (AwaitCall fr t)" for v'
    using continue_pending [of fetch uuid targetLanguage fr v' w] by simp
  show ?case
  proof (cases t)
    case (Finished r)
    then show ?thesis
      using c by (cases r) simp_all
  next
    case (AwaitText fr' placeholders r)
    then have "pending (fst (resume fetch uuid targetLanguage n t w)) < pending t"
      using "4.IH"(1) "4.prems" by simp
    then show ?thesis
      using AwaitText by (auto split: prod.splits)
  next
    case (AwaitAll fr' tasks)
    then have "pending (fst (resume fetch uuid targetLanguage n t w)) < pending t"
      using "4.IH"(2) "4.prems" by simp
    then show ?thesis
      using AwaitAll by (auto split: prod.splits)
  next
    case (AwaitCall fr' t')
    then have "pending (fst (resume fetch uuid targetLanguage n t w)) < pending t"
      using "4.IH"(3) "4.prems" by simp
    then show ?thesis
      using AwaitCall by (auto split: prod.splits)
  qed
next
  case (5 fetch uuid targetLanguage n w)
  then show ?case by simp
next
  case (6 fetch uuid targetLanguage n t tasks w)
  show ?case
  proof (cases "n < enabled t")
    case True
    have "pending (fst (resume fetch uuid targetLanguage n t w)) < pending t"
      using "6.IH"(1) [OF True True] .
    then show ?thesis
      using True by (auto split: prod.splits)
  next
    case False
    have "n - enabled t < sum_list (map enabled tasks)"
      using "6.prems" False by simp
    then have "sum_list (map pending (fst (resume_list fetch uuid targetLanguage (n - enabled t) tasks w)))
        < sum_list (map pending tasks)"
      using "6.IH"(2) [OF False] by simp
    then show ?thesis
      using False by (auto split: prod.splits)
  qed
qed

lemma run_Finished: "run fetch uuid targetLanguage schedule (Finished r) w = (Finished r, w)"
  by (induction schedule) simp_all

lemma run_append:
  "run fetch uuid targetLanguage (schedule @ rest) t w =
     run fetch uuid targetLanguage rest
       (fst (run fetch uuid targetLanguage schedule t w))
       (snd (run fetch uuid targetLanguage schedule t w))"
  by (induction schedule arbitrary: t w) (simp_all split: prod.splits)

text \<open>
  Resuming the first call that can be resumed, again and again, brings every task to
  its end.
\<close>

lemma run_in_order:
  "pending t \<le> n \<Longrightarrow> \<exists>r w'. run fetch uuid targetLanguage (replicate n 0) t w = (Finished r, w')"
proof (induction n arbitrary: t w)
  case 0
  then show ?case
    by (cases t) simp_all
next
  case (Suc n)
  show ?case
  proof (cases "\<exists>r. t = Finished r")
    case True
    then show ?thesis
      using run_Finished by blast
  next
    case False
    then have "0 < enabled t"
      using enabled_positive by blast
    then have "pending (fst (resume fetch uuid targetLanguage 0 t w)) < pending t"
      by (rule resume_pending(1))
    then have "pending (fst (resume fetch uuid targetLanguage 0 t w)) \<le> n"
      using Suc.prems by simp
    from Suc.IH [OF this, of "snd (resume fetch uuid targetLanguage 0 t w)"] show ?thesis
      by (auto split: prod.splits)
  qed
qed

lemma run_can_finish:
  "\<exists>rest r w'. run fetch uuid targetLanguage (schedule @ rest) t w = (Finished r, w')"
proof -
  obtain t1 w1 where s: "run fetch uuid targetLanguage schedule t w = (t1, w1)"
    by (metis prod.exhaust)
  obtain r w' where "run fetch uuid targetLanguage (replicate (pending t1) 0) t1 w1 = (Finished r, w')"
    using run_in_order [of t1 "pending t1"] by blast
  then have "run fetch uuid targetLanguage (schedule @ replicate (pending t1) 0) t w = (Finished r, w')"
    using s by (simp add: run_append)
  then show ?thesis
    by blast
qed
section \<open>Values under the key "original"\<close>





section \<open>Sample runs\<close>

lemma array_index_letter: "\<not> is_digit c \<Longrightarrow> array_index (c # cs) = None"
  by (simp add: array_index_def)

lemma js_entries_plain:
  "list_all (\<lambda>e. array_index (fst e) = None) obj \<Longrightarrow> js_entries obj = obj"
proof -
  assume a: "list_all (\<lambda>e. array_index (fst e) = None) obj"
  then have "filter (\<lambda>(k, v). array_index k \<noteq> None) obj = []"
    by (auto simp: list_all_iff filter_empty_conv)
  moreover have "filter (\<lambda>(k, v). array_index k = None) obj = obj"
    using a by (auto simp: list_all_iff filter_id_conv)
  ultimately show ?thesis
    by (simp add: js_entries_def)
qed

definition fetch_prefix :: "string \<Rightarrow> string \<Rightarrow> fetch_result" where
  "fetch_prefix text targetLanguage = Ok (''[es] '' @ text)"




lemmas run_simps =
  translateNestedJson.simps js_entries_plain array_index_letter is_digit_def
  translateText_def postprocessText_def



section \<open>A failed leaf and the other leaves\<close>












lemma preprocessText_Hello: "preprocessText uuid ''Hello'' w = ((''Hello'', []), w)"
  by (rule preprocessText_plain) auto




section \<open>The shape of the returned document\<close>















section \<open>An endpoint that is not configured\<close>




definition parse_as :: "json \<Rightarrow> string \<Rightarrow> js_error + json" where
  "parse_as d inputJson = Inr d"


definition blank_page :: page where
  "blank_page = \<lparr>error_shown = None, outputJson = None, isProcessing = False\<rparr>"





section \<open>What the handler reports\<close>

definition top_level_array :: json where
  "top_level_array = JArr [JObj [(''translated'', JStr ''Hello'')]]"

lemma top_level_array_run:
  "translateNestedJson fetch_prefix sample_uuid ''es'' top_level_array w0 =
     (AwaitCall (''0'', JObj [(''translated'', JStr ''Hello'')], [], [])
        (AwaitText (''translated'', JStr ''Hello'', [], []) [] (Inr ''[es] Hello'')),
      \<lparr>uuid_calls = 0, requests = [(''Hello'', ''es'')]\<rparr>)"
  "run fetch_prefix sample_uuid ''es'' [0, 0]
     (AwaitCall (''0'', JObj [(''translated'', JStr ''Hello'')], [], [])
        (AwaitText (''translated'', JStr ''Hello'', [], []) [] (Inr ''[es] Hello'')))
     \<lparr>uuid_calls = 0, requests = [(''Hello'', ''es'')]\<rparr> =
     (Finished (Inr (JObj [(''0'', JObj [(''translated'', JStr ''[es] Hello'')])])),
      \<lparr>uuid_calls = 0, requests = [(''Hello'', ''es'')]\<rparr>)"
  by (simp_all add: run_simps top_level_array_def preprocessText_Hello fetch_prefix_def w0_def
      show_nat_digits)

text \<open>
  C8, at the input \<^verbatim>\<open>[{"translated": "Hello"}]\<close>, valid JSON that is an array. The
  handler shows no error: the array is gone through by its indices, the request for
  the leaf is sent, and the output is the object \<^verbatim>\<open>{"0": {"translated": "[es] Hello"}}\<close>.
\<close>

theorem top_level_array_is_translated:
  "processTranslations (parse_as (JArr [JObj [(''translated'', JStr ''Hello'')]]))
     fetch_prefix sample_uuid [0, 0] ''[{\"translated\": \"Hello\"}]'' ''es'' blank_page w0 =
   (\<lparr>error_shown = None,
      outputJson = Some (JObj [(''0'', JObj [(''translated'', JStr ''[es] Hello'')])]),
      isProcessing = False\<rparr>,
    \<lparr>uuid_calls = 0, requests = [(''Hello'', ''es'')]\<rparr>)"
  using top_level_array_run
  by (simp add: processTranslations_def top_level_array_def parse_as_def)

text \<open>
  C8, amended. When the input is not valid JSON, and when it is the JSON value null,
  the handler shows an error, has no output and leaves the state as it was: nothing
  was drawn or sent. For any other value, an array, a string, a number or a boolean
  included, it never shows an error, whatever the order in which suspended calls are
  resumed, and it can be brought to its end from wherever a resumption order has led
  it; it then has an output.
\<close>

theorem handler_errors:
  "(parse inputJson = Inl e \<longrightarrow>
      processTranslations parse fetch uuid schedule inputJson targetLanguage p w =
        (\<lparr>error_shown = Some (''Error processing translations: '' @ message e),
           outputJson = None, isProcessing = False\<rparr>, w))
   \<and> (parse inputJson = Inr JNull \<longrightarrow>
      processTranslations parse fetch uuid schedule inputJson targetLanguage p w =
        (\<lparr>error_shown =
             Some ''Error processing translations: Cannot convert undefined or null to object'',
           outputJson = None, isProcessing = False\<rparr>, w))
   \<and> (parse inputJson = Inr data \<longrightarrow> data \<noteq> JNull \<longrightarrow>
      error_shown (fst (processTranslations parse fetch uuid schedule inputJson targetLanguage p w))
        = None
      \<and> (\<exists>rest d'.
            fst (processTranslations parse fetch uuid (schedule @ rest) inputJson targetLanguage p w) =
              \<lparr>error_shown = None, outputJson = Some d', isProcessing = False\<rparr>))"
proof (intro conjI impI)
  assume "parse inputJson = Inl e"
  then show "processTranslations parse fetch uuid schedule inputJson targetLanguage p w =
      (\<lparr>error_shown = Some (''Error processing translations: '' @ message e),
         outputJson = None, isProcessing = False\<rparr>, w)"
    by (simp add: processTranslations_def)
next
  assume "parse inputJson = Inr JNull"
  then show "processTranslations parse fetch uuid schedule inputJson targetLanguage p w =
      (\<lparr>error_shown =
           Some ''Error processing translations: Cannot convert undefined or null to object'',
         outputJson = None, isProcessing = False\<rparr>, w)"
    by (simp add: processTranslations_def translateNestedJson.simps run_Finished)
next
  assume parse: "parse inputJson = Inr data" and "data \<noteq> JNull"
  obtain t w1 where start: "translateNestedJson fetch uuid targetLanguage data w = (t, w1)"
    by (metis prod.exhaust)
  obtain t' w' where r: "run fetch uuid targetLanguage schedule t w1 = (t', w')"
    by (metis prod.exhaust)
  have "\<forall>e. t' \<noteq> Finished (Inl e)"
    using run_returns [OF \<open>data \<noteq> JNull\<close> start] r by auto
  then show "error_shown
      (fst (processTranslations parse fetch uuid schedule inputJson targetLanguage p w)) = None"
    using parse start r
    by (cases t') (auto simp: processTranslations_def split: sum.splits)
next
  assume parse: "parse inputJson = Inr data" and "data \<noteq> JNull"
  obtain t w1 where start: "translateNestedJson fetch uuid targetLanguage data w = (t, w1)"
    by (metis prod.exhaust)
  obtain rest r w' where fin:
    "run fetch uuid targetLanguage (schedule @ rest) t w1 = (Finished r, w')"
    using run_can_finish by blast
  obtain d' where "r = Inr d'"
    using run_returns [OF \<open>data \<noteq> JNull\<close> start fin] by blast
  then have "fst (processTranslations parse fetch uuid (schedule @ rest) inputJson targetLanguage p w) =
      \<lparr>error_shown = None, outputJson = Some d', isProcessing = False\<rparr>"
    using parse start fin by (simp add: processTranslations_def)
  then show "\<exists>rest d'.
      fst (processTranslations parse fetch uuid (schedule @ rest) inputJson targetLanguage p w) =
        \<lparr>error_shown = None, outputJson = Some d', isProcessing = False\<rparr>"
    by blast
qed

definition parse_sample :: "string \<Rightarrow> js_error + json" where
  "parse_sample inputJson =
     (if inputJson = ''null'' then Inr JNull
      else if inputJson = ''[]'' then Inr (JArr [])
      else Inl (SyntaxError ''Unexpected end of JSON input''))"

theorem handler_errors_witness:
  "processTranslations parse_sample fetch_prefix sample_uuid [0] ''{'' ''es'' blank_page w0 =
     (\<lparr>error_shown = Some ''Error processing translations: Unexpected end of JSON input'',
        outputJson = None, isProcessing = False\<rparr>, w0)
   \<and> processTranslations parse_sample fetch_prefix sample_uuid [0] ''null'' ''es'' blank_page w0 =
     (\<lparr>error_shown =
          Some ''Error processing translations: Cannot convert undefined or null to object'',
        outputJson = None, isProcessing = False\<rparr>, w0)
   \<and> error_shown
       (fst (processTranslations parse_sample fetch_prefix sample_uuid [0] ''[]'' ''es'' blank_page w0))
     = None"
proof -
  have a: "parse_sample ''{'' = Inl (SyntaxError ''Unexpected end of JSON input'')"
    and b: "parse_sample ''null'' = Inr JNull"
    and c: "parse_sample ''[]'' = Inr (JArr [])" "JArr [] \<noteq> JNull"
    by (simp_all add: parse_sample_def)
  show ?thesis
    using a b c
      handler_errors [of parse_sample "''{''" "SyntaxError ''Unexpected end of JSON input''"
        fetch_prefix sample_uuid "[0]" "''es''" blank_page w0 "JArr []"]
      handler_errors [of parse_sample "''null''" "SyntaxError ''Unexpected end of JSON input''"
        fetch_prefix sample_uuid "[0]" "''es''" blank_page w0 "JArr []"]
      handler_errors [of parse_sample "''[]''" "SyntaxError ''Unexpected end of JSON input''"
        fetch_prefix sample_uuid "[0]" "''es''" blank_page w0 "JArr []"]
    by simp
qed

end
